theory Spec2Isabelle
  imports Complex_Main "HOL-Library.Word"
begin

section \<open>ClickBooster.py: data model\<close>

text \<open>
  The embedding follows \<^verbatim>\<open>src/ClickBooster.py\<close>. Python floats (clock readings,
  thresholds, the damping weight) are modelled as \<^typ>\<open>real\<close>: order and exact
  arithmetic are kept. Rounding is written out, as an explicit rounding operator, where a
  property depends on it: in the duration of a ramp of the damping weight. Every reading of
  \<^verbatim>\<open>time.perf_counter()\<close>, every random draw, every value of a flag written by another
  thread and every answer of the operating system is an explicit argument of the
  function that consumes it.
\<close>

datatype button = Unknown | Left | Middle | Right | X1 | X2

datatype py_error = ZeroDivisionError | CapabilityError

text \<open>The configuration dictionary \<^verbatim>\<open>DEFAULT_CONFIG\<close>, one field per key.\<close>

record config =
  HARD_CPS_LIMIT :: real
  TARGET_CPS_RANGE :: "real \<times> real"
  TRIGGER_BUTTONS :: "button list"
  DOUBLE_CLICK_THRESHOLD :: real
  CPS_SLOWDOWN_THRESHOLD :: real
  SENS_MULTIPLIER :: real
  SENS_RAMP_DOWN_MS :: real
  SENS_RAMP_UP_MS :: real
  CPS_WINDOW_SECONDS :: real
  STALE_TIMEOUT_MS :: real
  POLLING_RATE_HZ :: real

definition DEFAULT_CONFIG :: config where
  "DEFAULT_CONFIG =
     \<lparr> HARD_CPS_LIMIT = 18,
       TARGET_CPS_RANGE = (15, 17),
       TRIGGER_BUTTONS = [Left, Right],
       DOUBLE_CLICK_THRESHOLD = 15 / 100,
       CPS_SLOWDOWN_THRESHOLD = 10,
       SENS_MULTIPLIER = 1 / 2,
       SENS_RAMP_DOWN_MS = 40,
       SENS_RAMP_UP_MS = 15,
       CPS_WINDOW_SECONDS = 3 / 10,
       STALE_TIMEOUT_MS = 100,
       POLLING_RATE_HZ = 250 \<rparr>"

text \<open>
  The fields of \<^verbatim>\<open>ClickSimulator\<close> that the click path, the worker and the damping
  loop share. \<^verbatim>\<open>total_click_history\<close> is the deque, oldest timestamp first;
  \<^verbatim>\<open>_work_queue\<close> is the unbounded FIFO queue of \<^verbatim>\<open>(button, time)\<close> signals.
\<close>

record simulator =
  is_listening :: bool
  simulating :: bool
  work_queue :: "(button \<times> real) list"
  total_click_history :: "real list"
  last_click_time :: real

definition ClickSimulator_init :: simulator where
  "ClickSimulator_init =
     \<lparr> is_listening = False, simulating = False, work_queue = [],
       total_click_history = [], last_click_time = 0 \<rparr>"

section \<open>The rate window\<close>

text \<open>
  The eviction loop of \<^verbatim>\<open>get_total_cps\<close>:
  \<^verbatim>\<open>while history and (now - history[0] > W): history.popleft()\<close>.
\<close>

fun evict :: "real \<Rightarrow> real \<Rightarrow> real list \<Rightarrow> real list" where
  "evict now w [] = []"
| "evict now w (t # ts) = (if now - t > w then evict now w ts else t # ts)"

text \<open>
  \<^verbatim>\<open>get_total_cps\<close> with its clock reading \<open>now\<close>. The eviction is kept in the
  returned state also when the final division raises.
\<close>

definition get_total_cps :: "config \<Rightarrow> real \<Rightarrow> simulator \<Rightarrow> (py_error + real) \<times> simulator" where
  "get_total_cps cfg now s =
     (let h = evict now (CPS_WINDOW_SECONDS cfg) (total_click_history s);
          s' = s\<lparr>total_click_history := h\<rparr>
      in if h = [] then (Inr 0, s')
         else if CPS_WINDOW_SECONDS cfg = 0 then (Inl ZeroDivisionError, s')
         else (Inr (real (length h) / CPS_WINDOW_SECONDS cfg), s'))"

definition register_click_event :: "real \<Rightarrow> simulator \<Rightarrow> simulator" where
  "register_click_event t s =
     s\<lparr>last_click_time := t, total_click_history := total_click_history s @ [t]\<rparr>"

section \<open>The trigger detector\<close>

text \<open>
  \<^verbatim>\<open>_on_click(x, y, button, pressed)\<close>. The callback reads the clock three times: in
  \<^verbatim>\<open>register_click_event\<close> (\<open>t_reg\<close>), in the double-click test (\<open>t_chk\<close>) and when it
  builds the signal (\<open>t_put\<close>). \<^verbatim>\<open>history[-2]\<close> is read only under the guard
  \<^verbatim>\<open>len(history) > 1\<close>.
\<close>

definition on_click ::
  "config \<Rightarrow> real \<Rightarrow> real \<Rightarrow> real \<Rightarrow> int \<Rightarrow> int \<Rightarrow> button \<Rightarrow> bool \<Rightarrow> simulator \<Rightarrow> simulator" where
  "on_click cfg t_reg t_chk t_put cx cy btn pressed s =
     (if \<not> pressed \<or> btn \<notin> set (TRIGGER_BUTTONS cfg) then s
      else
        let s1 = register_click_event t_reg s in
        if simulating s1 then s1
        else if length (total_click_history s1) > 1 then
          let prev_time = total_click_history s1 ! (length (total_click_history s1) - 2) in
          if t_chk - prev_time \<le> DOUBLE_CLICK_THRESHOLD cfg then
            if work_queue s1 = [] then s1\<lparr>work_queue := work_queue s1 @ [(btn, t_put)]\<rparr>
            else s1
          else s1
        else s1)"

text \<open>
  \<^verbatim>\<open>self._work_queue.get(timeout=0.05)\<close>: the oldest signal, or \<^verbatim>\<open>queue.Empty\<close>
  (here \<open>None\<close>) when nothing arrived before the timeout.
\<close>

definition work_queue_get :: "simulator \<Rightarrow> (button \<times> real) option \<times> simulator" where
  "work_queue_get s =
     (case work_queue s of
        [] \<Rightarrow> (None, s)
      | sg # q \<Rightarrow> (Some sg, s\<lparr>work_queue := q\<rparr>))"

text \<open>
  The three threads share the simulator without any lock, so the callback is not one
  step: between any two of its statements the worker and the damping loop may run.
  \<open>listener_pc\<close> is the statement of \<^verbatim>\<open>_on_click\<close> the listener thread executes next,
  with the button of the call in progress: the two statements of
  \<^verbatim>\<open>register_click_event\<close>, the test of \<^verbatim>\<open>_simulating\<close> (l.190), the test of the
  history length (l.194), the read of \<^verbatim>\<open>history[-2]\<close> with the threshold test
  (l.195-196), the test \<^verbatim>\<open>empty()\<close> (l.197) and the \<^verbatim>\<open>put\<close> (l.198). \<open>Crashed\<close>: the
  read of \<^verbatim>\<open>history[-2]\<close> raised \<^verbatim>\<open>IndexError\<close> because the loop evicted in between.
\<close>

datatype listener_pc =
    Idle
  | AtSetTime button
  | AtAppend button
  | AtFlag button
  | AtLen button
  | AtPrev button
  | AtEmpty button
  | AtPut button
  | Crashed

record system =
  shared :: simulator
  listener :: listener_pc

definition init_system :: system where
  "init_system = \<lparr> shared = ClickSimulator_init, listener = Idle \<rparr>"

text \<open>
  The two statements of \<^verbatim>\<open>register_click_event\<close>:
  \<^verbatim>\<open>self.last_click_time = time.perf_counter()\<close> and
  \<^verbatim>\<open>self.total_click_history.append(self.last_click_time)\<close>.
\<close>

definition set_click_time :: "real \<Rightarrow> simulator \<Rightarrow> simulator" where
  "set_click_time t s = s\<lparr>last_click_time := t\<rparr>"

definition append_click_time :: "simulator \<Rightarrow> simulator" where
  "append_click_time s = s\<lparr>total_click_history := total_click_history s @ [last_click_time s]\<rparr>"

text \<open>
  The listener thread is handed a click: the guard on \<^verbatim>\<open>pressed\<close> and \<^verbatim>\<open>button\<close> reads
  nothing shared. The thread runs one callback at a time, so a click handed over while a
  call is in progress is not part of the interleaving.
\<close>

definition deliver :: "config \<Rightarrow> int \<Rightarrow> int \<Rightarrow> button \<Rightarrow> bool \<Rightarrow> system \<Rightarrow> system" where
  "deliver cfg cx cy btn pressed sys =
     (if listener sys = Idle then
        (if \<not> pressed \<or> btn \<notin> set (TRIGGER_BUTTONS cfg) then sys
         else sys\<lparr>listener := AtSetTime btn\<rparr>)
      else sys)"

text \<open>
  The listener thread executes its next statement; \<open>t\<close> is the reading of
  \<^verbatim>\<open>time.perf_counter()\<close> for the statements that take one.
\<close>

definition listener_step :: "config \<Rightarrow> real \<Rightarrow> system \<Rightarrow> system" where
  "listener_step cfg t sys =
     (case listener sys of
        Idle \<Rightarrow> sys
      | AtSetTime btn \<Rightarrow>
          sys\<lparr>shared := set_click_time t (shared sys), listener := AtAppend btn\<rparr>
      | AtAppend btn \<Rightarrow>
          sys\<lparr>shared := append_click_time (shared sys), listener := AtFlag btn\<rparr>
      | AtFlag btn \<Rightarrow>
          sys\<lparr>listener := (if simulating (shared sys) then Idle else AtLen btn)\<rparr>
      | AtLen btn \<Rightarrow>
          sys\<lparr>listener :=
               (if length (total_click_history (shared sys)) > 1 then AtPrev btn else Idle)\<rparr>
      | AtPrev btn \<Rightarrow>
          (if length (total_click_history (shared sys)) < 2 then sys\<lparr>listener := Crashed\<rparr>
           else
             let prev_time = total_click_history (shared sys)
                               ! (length (total_click_history (shared sys)) - 2)
             in sys\<lparr>listener :=
                      (if t - prev_time \<le> DOUBLE_CLICK_THRESHOLD cfg then AtEmpty btn else Idle)\<rparr>)
      | AtEmpty btn \<Rightarrow>
          sys\<lparr>listener := (if work_queue (shared sys) = [] then AtPut btn else Idle)\<rparr>
      | AtPut btn \<Rightarrow>
          sys\<lparr>shared := (shared sys)\<lparr>work_queue := work_queue (shared sys) @ [(btn, t)]\<rparr>,
               listener := Idle\<rparr>
      | Crashed \<Rightarrow> sys)"

text \<open>
  The steps of an interleaving: a click is handed to the listener thread, the listener
  thread executes its next statement, the worker takes a signal (l.203), writes
  \<^verbatim>\<open>_simulating\<close> (l.207, l.227) or executes a statement of \<^verbatim>\<open>register_click_event\<close>
  (l.223), the damping loop calls \<^verbatim>\<open>get_total_cps\<close> (l.86), \<^verbatim>\<open>stop()\<close> clears
  \<^verbatim>\<open>_is_listening\<close>.
\<close>

datatype event =
    Deliver int int button bool
  | Listener real
  | WorkerGet
  | WorkerSetSimulating bool
  | WorkerSetTime real
  | WorkerAppend
  | LoopGetCps real
  | Stop

fun step :: "config \<Rightarrow> system \<Rightarrow> event \<Rightarrow> system" where
  "step cfg sys (Deliver cx cy btn pressed) = deliver cfg cx cy btn pressed sys"
| "step cfg sys (Listener t) = listener_step cfg t sys"
| "step cfg sys WorkerGet = sys\<lparr>shared := snd (work_queue_get (shared sys))\<rparr>"
| "step cfg sys (WorkerSetSimulating b) = sys\<lparr>shared := (shared sys)\<lparr>simulating := b\<rparr>\<rparr>"
| "step cfg sys (WorkerSetTime t) = sys\<lparr>shared := set_click_time t (shared sys)\<rparr>"
| "step cfg sys WorkerAppend = sys\<lparr>shared := append_click_time (shared sys)\<rparr>"
| "step cfg sys (LoopGetCps now) = sys\<lparr>shared := snd (get_total_cps cfg now (shared sys))\<rparr>"
| "step cfg sys Stop = sys\<lparr>shared := (shared sys)\<lparr>is_listening := False\<rparr>\<rparr>"

definition run :: "config \<Rightarrow> event list \<Rightarrow> system \<Rightarrow> system" where
  "run cfg evs sys = foldl (step cfg) sys evs"

text \<open>
  One call of \<^verbatim>\<open>_on_click\<close> that no other thread interrupts: the click is handed over and
  the listener thread executes its seven statements.
\<close>

definition callback :: "real \<Rightarrow> real \<Rightarrow> real \<Rightarrow> int \<Rightarrow> int \<Rightarrow> button \<Rightarrow> bool \<Rightarrow> event list" where
  "callback t_reg t_chk t_put cx cy btn pressed =
     [Deliver cx cy btn pressed, Listener t_reg, Listener t_reg, Listener t_reg,
      Listener t_reg, Listener t_chk, Listener t_chk, Listener t_put]"

section \<open>The simulation worker\<close>

datatype action = Sleep real | Press button | Release button | Move int int

text \<open>
  \<^verbatim>\<open>random.randint(a, b)\<close> is \<open>a\<close> plus a draw below \<open>b - a + 1\<close>, and
  \<^verbatim>\<open>random.uniform(a, b)\<close> is \<open>a + (b - a) * random()\<close>; the draws are arguments.
\<close>

definition randint :: "int \<Rightarrow> int \<Rightarrow> nat \<Rightarrow> int" where
  "randint a b k = a + int k mod (b - a + 1)"

definition uniform :: "real \<Rightarrow> real \<Rightarrow> real \<Rightarrow> real" where
  "uniform a b u = a + (b - a) * u"

text \<open>
  What one burst unit takes from outside: whether \<^verbatim>\<open>stop()\<close> has run on another thread
  before the unit's check of \<^verbatim>\<open>_is_listening\<close>, the two \<^verbatim>\<open>random()\<close> draws, the clock
  reading of \<^verbatim>\<open>register_click_event\<close>, and whether the press or the release raises.
\<close>

record unit_env =
  stop_called :: bool
  u_delay :: real
  press_raises :: bool
  t_click :: real
  u_hold :: real
  release_raises :: bool

text \<open>The body of the \<^verbatim>\<open>for\<close> loop after the \<^verbatim>\<open>_is_listening\<close> check.\<close>

definition burst_unit ::
  "config \<Rightarrow> button \<Rightarrow> unit_env \<Rightarrow> simulator \<Rightarrow> (py_error + unit) \<times> simulator \<times> action list" where
  "burst_unit cfg btn env s =
     (if snd (TARGET_CPS_RANGE cfg) = 0 then (Inl ZeroDivisionError, s, [])
      else
        let min_delay = 1 / snd (TARGET_CPS_RANGE cfg) in
        if fst (TARGET_CPS_RANGE cfg) = 0 then (Inl ZeroDivisionError, s, [])
        else
          let max_delay = 1 / fst (TARGET_CPS_RANGE cfg);
              delay = uniform min_delay max_delay (u_delay env);
              tr1 = [Sleep (max 0 (delay - 15 / 1000))]
          in
          if press_raises env then (Inl CapabilityError, s, tr1)
          else
            let s1 = register_click_event (t_click env) s;
                tr2 = tr1 @ [Press btn, Sleep (uniform (1 / 100) (2 / 100) (u_hold env))]
            in
            if release_raises env then (Inl CapabilityError, s1, tr2)
            else (Inr (), s1, tr2 @ [Release btn]))"

text \<open>
  \<^verbatim>\<open>for _ in range(clicks_to_add)\<close>: \<open>burst_loop cfg btn envs i n s\<close> runs the units
  \<open>i, i + 1, \<dots>\<close> with \<open>n\<close> of them left; \<^verbatim>\<open>break\<close> when \<^verbatim>\<open>_is_listening\<close> is false, and
  an exception ends the loop.
\<close>

fun burst_loop ::
  "config \<Rightarrow> button \<Rightarrow> (nat \<Rightarrow> unit_env) \<Rightarrow> nat \<Rightarrow> nat \<Rightarrow> simulator
     \<Rightarrow> (py_error + unit) \<times> simulator \<times> action list" where
  "burst_loop cfg btn envs i 0 s = (Inr (), s, [])"
| "burst_loop cfg btn envs i (Suc n) s =
     (let s0 = (if stop_called (envs i) then s\<lparr>is_listening := False\<rparr> else s) in
      if \<not> is_listening s0 then (Inr (), s0, [])
      else
        case burst_unit cfg btn (envs i) s0 of
          (Inl err, s1, tr) \<Rightarrow> (Inl err, s1, tr)
        | (Inr _, s1, tr) \<Rightarrow>
            (case burst_loop cfg btn envs (Suc i) n s1 of
               (r, s2, tr') \<Rightarrow> (r, s2, tr @ tr')))"

text \<open>
  \<^verbatim>\<open>try: body finally: fin\<close>: \<open>fin\<close> runs on the state the body leaves, whether the
  body returned or raised, and the body's outcome is passed on.
\<close>

definition try_finally ::
  "(simulator \<Rightarrow> (py_error + unit) \<times> simulator \<times> action list) \<Rightarrow> (simulator \<Rightarrow> simulator)
     \<Rightarrow> simulator \<Rightarrow> (py_error + unit) \<times> simulator \<times> action list" where
  "try_finally body fin s = (case body s of (r, s', tr) \<Rightarrow> (r, fin s', tr))"

text \<open>
  The worker's loop body once \<^verbatim>\<open>get\<close> has returned the signal \<^verbatim>\<open>(button, _)\<close>; \<open>k\<close> is
  the draw behind \<^verbatim>\<open>random.randint(2, 4)\<close>.
\<close>

definition clicks_to_add :: "nat \<Rightarrow> nat" where
  "clicks_to_add k = nat (randint 2 4 k)"

definition worker_on_signal ::
  "config \<Rightarrow> button \<Rightarrow> nat \<Rightarrow> (nat \<Rightarrow> unit_env) \<Rightarrow> simulator
     \<Rightarrow> (py_error + unit) \<times> simulator \<times> action list" where
  "worker_on_signal cfg btn k envs s =
     try_finally (burst_loop cfg btn envs 0 (clicks_to_add k))
       (\<lambda>s'. s'\<lparr>simulating := False\<rparr>) (s\<lparr>simulating := True\<rparr>)"

text \<open>One pass of \<^verbatim>\<open>while self._is_listening\<close> in \<^verbatim>\<open>_worker_loop\<close>.\<close>

definition worker_iteration ::
  "config \<Rightarrow> nat \<Rightarrow> (nat \<Rightarrow> unit_env) \<Rightarrow> simulator \<Rightarrow> (py_error + unit) \<times> simulator \<times> action list" where
  "worker_iteration cfg k envs s =
     (case work_queue_get s of
        (None, s') \<Rightarrow> (Inr (), s', [])
      | (Some (btn, _), s') \<Rightarrow> worker_on_signal cfg btn k envs s')"

section \<open>The sensitivity engine\<close>

text \<open>
  \<^verbatim>\<open>POINT\<close> has two \<^verbatim>\<open>wintypes.LONG\<close> fields: 32-bit signed integers. A field is read
  as a Python integer (\<^term>\<open>sint\<close>) and a store wraps (\<^term>\<open>word_of_int\<close>).
\<close>

record POINT =
  pt_x :: "32 word"
  pt_y :: "32 word"

text \<open>
  \<^verbatim>\<open>user32.GetCursorPos(ctypes.byref(buf))\<close>. The answer of the operating system is
  \<open>Some p\<close> (the call returns nonzero and \<open>buf\<close> holds \<open>p\<close>) or \<open>None\<close> (the call
  returns 0 and \<open>buf\<close> is left as it was).
\<close>

definition GetCursorPos :: "POINT option \<Rightarrow> POINT \<Rightarrow> bool \<times> POINT" where
  "GetCursorPos answer buf = (case answer of None \<Rightarrow> (False, buf) | Some p \<Rightarrow> (True, p))"

text \<open>\<^verbatim>\<open>POINT()\<close>: ctypes initialises the fields of a new structure to zero.\<close>

definition POINT_new :: POINT where
  "POINT_new = \<lparr>pt_x = 0, pt_y = 0\<rparr>"

text \<open>\<^verbatim>\<open>int(r)\<close> on a float truncates toward zero.\<close>

definition py_int :: "real \<Rightarrow> int" where
  "py_int r = (if r < 0 then \<lceil>r\<rceil> else \<lfloor>r\<rfloor>)"

definition py_div :: "real \<Rightarrow> real \<Rightarrow> py_error + real" where
  "py_div a b = (if b = 0 then Inl ZeroDivisionError else Inr (a / b))"

record engine =
  multiplier :: real
  step_down :: real
  step_up :: real
  current_weight :: real
  running :: bool
  last_pos :: POINT

text \<open>
  \<^verbatim>\<open>SensitivityEngine.__init__\<close>; \<open>answer\<close> is what \<^verbatim>\<open>GetCursorPos\<close> gives for the
  first \<^verbatim>\<open>last_pos\<close>. Each of the five divisions raises on a zero divisor.
\<close>

definition SensitivityEngine_init :: "config \<Rightarrow> POINT option \<Rightarrow> py_error + engine" where
  "SensitivityEngine_init cfg answer =
     (case py_div 1000 (POLLING_RATE_HZ cfg) of
        Inl err \<Rightarrow> Inl err
      | Inr polling_ms \<Rightarrow>
     (case py_div (SENS_RAMP_DOWN_MS cfg) polling_ms of
        Inl err \<Rightarrow> Inl err
      | Inr down_ticks \<Rightarrow>
     (case py_div 1 down_ticks of
        Inl err \<Rightarrow> Inl err
      | Inr sd \<Rightarrow>
     (case py_div (SENS_RAMP_UP_MS cfg) polling_ms of
        Inl err \<Rightarrow> Inl err
      | Inr up_ticks \<Rightarrow>
     (case py_div 1 up_ticks of
        Inl err \<Rightarrow> Inl err
      | Inr su \<Rightarrow>
          Inr \<lparr> multiplier = SENS_MULTIPLIER cfg, step_down = sd, step_up = su,
                current_weight = 1, running = False,
                last_pos = snd (GetCursorPos answer POINT_new) \<rparr>)))))"

text \<open>
  Step 2 of the loop, "asymmetric ramping": the weight moves toward its target and is
  clamped at it. Rounding to nearest is monotone and leaves 1 and the multiplier as they
  are, so the clamps keep the weight between the multiplier and 1 in floating point as
  they do in exact arithmetic.
\<close>

definition ramp :: "engine \<Rightarrow> bool \<Rightarrow> engine" where
  "ramp e is_over_limit =
     (let target_weight = (if is_over_limit then multiplier e else 1) in
      if current_weight e > target_weight then
        e\<lparr>current_weight := max target_weight (current_weight e - step_down e)\<rparr>
      else if current_weight e < target_weight then
        e\<lparr>current_weight := min target_weight (current_weight e + step_up e)\<rparr>
      else e)"

text \<open>
  Step 3 of the loop, "apply counter-movement". \<^verbatim>\<open>_move_relative(rx, ry)\<close> calls
  \<^verbatim>\<open>mouse_event\<close> with \<^verbatim>\<open>int(rx), int(ry)\<close>: the action \<open>Move\<close>.
\<close>

definition counter_move :: "engine \<Rightarrow> POINT option \<Rightarrow> engine \<times> action list" where
  "counter_move e answer =
     (if current_weight e < 995 / 1000 then
        (case GetCursorPos answer POINT_new of
           (True, curr_pos) \<Rightarrow>
             let dx = sint (pt_x curr_pos) - sint (pt_x (last_pos e));
                 dy = sint (pt_y curr_pos) - sint (pt_y (last_pos e))
             in
             if dx \<noteq> 0 \<or> dy \<noteq> 0 then
               let pull_back = current_weight e - 1;
                   rx = real_of_int dx * pull_back;
                   ry = real_of_int dy * pull_back
               in
               if \<bar>rx\<bar> \<ge> 1 \<or> \<bar>ry\<bar> \<ge> 1 then
                 (e\<lparr>last_pos :=
                      \<lparr> pt_x = word_of_int (sint (pt_x curr_pos) + py_int rx),
                        pt_y = word_of_int (sint (pt_y curr_pos) + py_int ry) \<rparr>\<rparr>,
                  [Move (py_int rx) (py_int ry)])
               else (e\<lparr>last_pos := curr_pos\<rparr>, [])
             else (e\<lparr>last_pos := curr_pos\<rparr>, [])
         | (False, curr_pos) \<Rightarrow> (e\<lparr>last_pos := curr_pos\<rparr>, []))
      else (e\<lparr>last_pos := snd (GetCursorPos answer (last_pos e))\<rparr>, []))"

text \<open>
  What one pass of the loop takes from outside: whether \<^verbatim>\<open>stop()\<close> has run before the
  test of \<^verbatim>\<open>_running\<close>, the timestamps the other threads have registered since the
  last pass, the loop's own clock reading, the clock reading inside
  \<^verbatim>\<open>get_total_cps\<close>, and the answer of \<^verbatim>\<open>GetCursorPos\<close>.
\<close>

record tick_env =
  engine_stopped :: bool
  registered :: "real list"
  t_now :: real
  t_cps :: real
  cursor :: "POINT option"

definition loop_tick ::
  "config \<Rightarrow> tick_env \<Rightarrow> engine \<Rightarrow> simulator
     \<Rightarrow> (py_error + unit) \<times> engine \<times> simulator \<times> action list" where
  "loop_tick cfg env e s =
     (case get_total_cps cfg (t_cps env) s of
        (Inl err, s') \<Rightarrow> (Inl err, e, s', [])
      | (Inr current_cps, s') \<Rightarrow>
          let time_since_last = (t_now env - last_click_time s') * 1000;
              is_over_limit = (current_cps \<ge> CPS_SLOWDOWN_THRESHOLD cfg
                               \<and> time_since_last < STALE_TIMEOUT_MS cfg);
              e1 = ramp e is_over_limit
          in
          case counter_move e1 (cursor env) of
            (e2, tr) \<Rightarrow>
              if POLLING_RATE_HZ cfg = 0 then (Inl ZeroDivisionError, e2, s', tr)
              else (Inr (), e2, s', tr @ [Sleep (1 / POLLING_RATE_HZ cfg)]))"

text \<open>\<^verbatim>\<open>while self._running\<close>, one environment per pass.\<close>

fun loop_from ::
  "config \<Rightarrow> tick_env list \<Rightarrow> engine \<Rightarrow> simulator
     \<Rightarrow> (py_error + unit) \<times> engine \<times> simulator \<times> action list" where
  "loop_from cfg [] e s = (Inr (), e, s, [])"
| "loop_from cfg (env # envs) e s =
     (let e0 = (if engine_stopped env then e\<lparr>running := False\<rparr> else e);
          s0 = foldl (\<lambda>st t. register_click_event t st) s (registered env)
      in
      if \<not> running e0 then (Inr (), e0, s0, [])
      else
        case loop_tick cfg env e0 s0 of
          (Inl err, e1, s1, tr) \<Rightarrow> (Inl err, e1, s1, tr)
        | (Inr _, e1, s1, tr) \<Rightarrow>
            (case loop_from cfg envs e1 s1 of
               (r, e2, s2, tr') \<Rightarrow> (r, e2, s2, tr @ tr')))"

definition loop :: 
  "config \<Rightarrow> tick_env list \<Rightarrow> engine \<Rightarrow> simulator
     \<Rightarrow> (py_error + unit) \<times> engine \<times> simulator \<times> action list" where
  "loop cfg envs e s = loop_from cfg envs (e\<lparr>running := True\<rparr>) s"

text \<open>
  The same step with the rounding of the two floating-point operations written out:
  \<open>rnd\<close> is applied to the difference of l.97 and to the sum of l.99, the only places
  where the step computes a new number. Binary floating point rounds to nearest, and
  \<open>rnd\<close> is the identity wherever the exact result is itself a floating-point number.
\<close>

definition ramp_rounded :: "(real \<Rightarrow> real) \<Rightarrow> engine \<Rightarrow> bool \<Rightarrow> engine" where
  "ramp_rounded rnd e is_over_limit =
     (let target_weight = (if is_over_limit then multiplier e else 1) in
      if current_weight e > target_weight then
        e\<lparr>current_weight := max target_weight (rnd (current_weight e - step_down e))\<rparr>
      else if current_weight e < target_weight then
        e\<lparr>current_weight := min target_weight (rnd (current_weight e + step_up e))\<rparr>
      else e)"

text \<open>\<open>n\<close> consecutive passes of that step under one and the same activity decision.\<close>

fun ramp_passes :: "(real \<Rightarrow> real) \<Rightarrow> engine \<Rightarrow> bool \<Rightarrow> nat \<Rightarrow> engine" where
  "ramp_passes rnd e a 0 = e"
| "ramp_passes rnd e a (Suc n) = ramp_rounded rnd (ramp_passes rnd e a n) a"

section \<open>Properties of traces, and concrete inputs\<close>

text \<open>
  A trace leaves no press dangling when every \<open>Press b\<close> is followed by \<open>Release b\<close>
  before the next press and before the trace ends; \<open>held\<close> is the button that is down.
\<close>

fun no_dangling_press :: "button option \<Rightarrow> action list \<Rightarrow> bool" where
  "no_dangling_press held [] = (held = None)"
| "no_dangling_press held (Press b # as) = (held = None \<and> no_dangling_press (Some b) as)"
| "no_dangling_press held (Release b # as) = (held = Some b \<and> no_dangling_press None as)"
| "no_dangling_press held (Sleep d # as) = no_dangling_press held as"
| "no_dangling_press held (Move mx my # as) = no_dangling_press held as"



text \<open>Simulator states and environments at which the theorems below are evaluated.\<close>

definition one_click_state :: simulator where
  "one_click_state = ClickSimulator_init\<lparr>is_listening := True, total_click_history := [0]\<rparr>"

definition pending_state :: simulator where
  "pending_state =
     ClickSimulator_init\<lparr>is_listening := True, work_queue := [(Left, 1 / 10)],
       total_click_history := [0, 1 / 10], last_click_time := 1 / 10\<rparr>"

definition steady_unit :: unit_env where
  "steady_unit = \<lparr> stop_called = False, u_delay = 1 / 2, press_raises = False,
                    t_click = 1, u_hold = 1 / 2, release_raises = False \<rparr>"

text \<open>
  The invariant of the ramp: the weight lies between the multiplier and 1, and neither
  step is negative.
\<close>

definition ramp_inv :: "engine \<Rightarrow> bool" where
  "ramp_inv e = (multiplier e \<le> current_weight e \<and> current_weight e \<le> 1
                 \<and> 0 \<le> step_down e \<and> 0 \<le> step_up e)"

text \<open>Engines, a simulator state and loop environments for the evaluations below.\<close>

definition default_engine :: engine where
  "default_engine = \<lparr> multiplier = 1 / 2, step_down = 1 / 10, step_up = 4 / 15,
       current_weight = 1, running = False, last_pos = POINT_new \<rparr>"


definition damped_engine :: engine where
  "damped_engine = default_engine\<lparr>current_weight := 1 / 2, running := True,
       last_pos := \<lparr>pt_x = 500, pt_y = 500\<rparr>\<rparr>"

definition clicking_state :: simulator where
  "clicking_state = ClickSimulator_init\<lparr>is_listening := True,
       total_click_history := [1, 105 / 100, 11 / 10], last_click_time := 11 / 10\<rparr>"

definition failed_tick :: tick_env where
  "failed_tick = \<lparr> engine_stopped = False, registered = [], t_now = 1104 / 1000,
       t_cps = 1104 / 1000, cursor = None \<rparr>"

definition still_tick :: tick_env where
  "still_tick = \<lparr> engine_stopped = False, registered = [], t_now = 1108 / 1000,
       t_cps = 1108 / 1000, cursor = Some \<lparr>pt_x = 500, pt_y = 500\<rparr> \<rparr>"

text \<open>
  The invariant of the signal queue: at most one signal is pending, and none while the
  listener thread is about to execute its \<^verbatim>\<open>put\<close>.
\<close>

definition queue_inv :: "system \<Rightarrow> bool" where
  "queue_inv sys = (length (work_queue (shared sys)) \<le> 1
                    \<and> (\<forall>btn. listener sys = AtPut btn \<longrightarrow> work_queue (shared sys) = []))"


text \<open>
  A configuration whose ramp arithmetic is exact in binary floating point (every
  quotient, difference and sum is a multiple of 1/8 between 0 and 1000), and the engine
  \<^verbatim>\<open>__init__\<close> builds from it.
\<close>

definition dyadic_config :: config where
  "dyadic_config = DEFAULT_CONFIG\<lparr>SENS_RAMP_DOWN_MS := 32, SENS_RAMP_UP_MS := 16\<rparr>"

definition dyadic_engine :: engine where
  "dyadic_engine = \<lparr> multiplier = 1 / 2, step_down = 1 / 8, step_up = 1 / 4,
       current_weight = 1, running = False, last_pos = POINT_new \<rparr>"

text \<open>
  An interleaving: two uninterrupted calls 0.1 s apart (the second enqueues a signal),
  then a third call that tests \<^verbatim>\<open>_simulating\<close> before the worker takes the signal and
  sets the flag, and goes on to its \<^verbatim>\<open>put\<close> afterwards.
\<close>

definition race_prefix :: "event list" where
  "race_prefix =
     callback 0 0 0 5 5 Left True @ callback (1 / 10) (1 / 10) (1 / 10) 5 5 Left True
     @ [Deliver 5 5 Left True, Listener (2 / 10), Listener (2 / 10), Listener (2 / 10),
        WorkerGet, WorkerSetSimulating True,
        Listener (2 / 10), Listener (2 / 10), Listener (2 / 10)]"

definition flag_test_system :: system where
  "flag_test_system =
     \<lparr> shared = one_click_state\<lparr>simulating := True\<rparr>, listener = AtFlag Left \<rparr>"

section \<open>Properties of the rate window\<close>

lemma evict_dropWhile: "evict now w ts = dropWhile (\<lambda>t. now - t > w) ts"
  by (induction ts) auto

lemma evict_length: "length (evict now w ts) \<le> length ts"
  by (simp add: evict_dropWhile length_dropWhile_le)

lemma evict_sorted_filter:
  "sorted ts \<Longrightarrow> evict now w ts = filter (\<lambda>t. now - t \<le> w) ts"
proof (induction ts)
  case Nil
  then show ?case by simp
next
  case (Cons t ts)
  show ?case
  proof (cases "now - t > w")
    case True
    with Cons show ?thesis by simp
  next
    case False
    with Cons.prems have "\<forall>u\<in>set (t # ts). now - u \<le> w" by auto
    then have "filter (\<lambda>t. now - t \<le> w) (t # ts) = t # ts"
      by (simp only: filter_True)
    with False show ?thesis by simp
  qed
qed

text \<open>
  C2. For every history and every query time, \<^verbatim>\<open>get_total_cps\<close> drops exactly the
  longest prefix of timestamps older than the window, keeps the rest in order, never
  retains more timestamps than before, and (for a window length other than zero, so that
  the division is defined) returns the retained count divided by the window length,
  which is 0 when nothing is retained.
\<close>

theorem get_total_cps_spec:
  assumes "CPS_WINDOW_SECONDS cfg \<noteq> 0"
  shows "total_click_history (snd (get_total_cps cfg now s))
           = dropWhile (\<lambda>t. now - t > CPS_WINDOW_SECONDS cfg) (total_click_history s)
       \<and> fst (get_total_cps cfg now s)
           = Inr (if total_click_history (snd (get_total_cps cfg now s)) = [] then 0
                  else real (length (total_click_history (snd (get_total_cps cfg now s))))
                         / CPS_WINDOW_SECONDS cfg)
       \<and> length (total_click_history (snd (get_total_cps cfg now s)))
           \<le> length (total_click_history s)"
proof -
  define h where "h = evict now (CPS_WINDOW_SECONDS cfg) (total_click_history s)"
  have kept: "total_click_history (snd (get_total_cps cfg now s)) = h"
    by (simp add: get_total_cps_def Let_def h_def)
  have rate: "fst (get_total_cps cfg now s)
      = Inr (if h = [] then 0 else real (length h) / CPS_WINDOW_SECONDS cfg)"
    using assms by (simp add: get_total_cps_def Let_def h_def)
  have "h = dropWhile (\<lambda>t. now - t > CPS_WINDOW_SECONDS cfg) (total_click_history s)"
    by (simp add: h_def evict_dropWhile)
  moreover have "length h \<le> length (total_click_history s)"
    by (simp add: h_def evict_length)
  ultimately show ?thesis
    by (simp only: kept rate)
qed

theorem get_total_cps_spec_witness:
  "CPS_WINDOW_SECONDS DEFAULT_CONFIG \<noteq> 0
   \<and> total_click_history (snd (get_total_cps DEFAULT_CONFIG (1 / 2)
        (ClickSimulator_init\<lparr>total_click_history := [0, 1 / 10, 1 / 4, 2 / 5]\<rparr>)))
       = [1 / 4, 2 / 5]
   \<and> fst (get_total_cps DEFAULT_CONFIG (1 / 2)
        (ClickSimulator_init\<lparr>total_click_history := [0, 1 / 10, 1 / 4, 2 / 5]\<rparr>))
       = Inr (20 / 3)"
  using get_total_cps_spec [of DEFAULT_CONFIG "1 / 2"
      "ClickSimulator_init\<lparr>total_click_history := [0, 1 / 10, 1 / 4, 2 / 5]\<rparr>"]
  by (simp add: DEFAULT_CONFIG_def ClickSimulator_init_def get_total_cps_def)

section \<open>Properties of the trigger detector\<close>

lemma register_in_two_steps:
  "append_click_time (set_click_time t s) = register_click_event t s"
  by (simp add: append_click_time_def set_click_time_def register_click_event_def)

lemma listener_step_queue:
  "work_queue (shared (listener_step cfg t sys)) =
     (case listener sys of AtPut btn \<Rightarrow> work_queue (shared sys) @ [(btn, t)]
                         | _ \<Rightarrow> work_queue (shared sys))"
  by (simp add: listener_step_def set_click_time_def append_click_time_def Let_def
      split: listener_pc.splits)

lemma listener_step_reaches_put:
  "listener (listener_step cfg t sys) = AtPut btn \<Longrightarrow>
     listener sys = AtEmpty btn \<and> work_queue (shared sys) = []"
  by (auto simp add: listener_step_def Let_def split: listener_pc.splits if_splits)

lemma listener_step_passes_flag:
  "listener (listener_step cfg t sys) = AtLen btn \<Longrightarrow>
     listener sys = AtFlag btn \<and> \<not> simulating (shared sys)"
  by (auto simp add: listener_step_def Let_def split: listener_pc.splits if_splits)

lemma queue_inv_listener_step: "queue_inv sys \<Longrightarrow> queue_inv (listener_step cfg t sys)"
proof -
  assume inv: "queue_inv sys"
  have q: "length (work_queue (shared (listener_step cfg t sys))) \<le> 1"
    using inv by (cases "listener sys") (simp_all add: listener_step_queue queue_inv_def)
  have p: "work_queue (shared (listener_step cfg t sys)) = []"
    if "listener (listener_step cfg t sys) = AtPut btn" for btn
    using listener_step_reaches_put [OF that] by (simp add: listener_step_queue)
  from q p show ?thesis by (simp add: queue_inv_def)
qed

lemma queue_inv_step: "queue_inv sys \<Longrightarrow> queue_inv (step cfg sys ev)"
proof (cases ev)
  case (Listener t)
  assume "queue_inv sys"
  then show ?thesis using Listener by (simp add: queue_inv_listener_step)
next
  case WorkerGet
  assume "queue_inv sys"
  then show ?thesis using WorkerGet
    by (auto simp add: queue_inv_def work_queue_get_def split: list.splits)
qed (auto simp add: queue_inv_def deliver_def set_click_time_def append_click_time_def
      get_total_cps_def Let_def)

lemma queue_inv_run: "queue_inv sys \<Longrightarrow> queue_inv (run cfg evs sys)"
proof (induction evs arbitrary: sys)
  case Nil
  then show ?case by (simp add: run_def)
next
  case (Cons ev evs)
  from Cons.IH [OF queue_inv_step [OF Cons.prems, of cfg ev]]
  show ?case by (simp add: run_def)
qed

lemma queue_inv_init: "queue_inv init_system"
  by (simp add: queue_inv_def init_system_def ClickSimulator_init_def)

lemma get_total_cps_queue: "work_queue (snd (get_total_cps cfg now s)) = work_queue s"
  by (simp add: get_total_cps_def Let_def)

lemma deliver_queue: "work_queue (shared (deliver cfg cx cy btn pressed sys)) = work_queue (shared sys)"
  by (simp add: deliver_def)

lemma step_enqueues:
  assumes "length (work_queue (shared (step cfg sys ev))) > length (work_queue (shared sys))"
  shows "\<exists>btn t. ev = Listener t \<and> listener sys = AtPut btn
           \<and> work_queue (shared (step cfg sys ev)) = work_queue (shared sys) @ [(btn, t)]"
proof (cases ev)
  case (Listener t)
  with assms show ?thesis
    by (cases "listener sys") (simp_all add: listener_step_queue)
next
  case WorkerGet
  with assms show ?thesis
    by (auto simp add: work_queue_get_def split: list.splits)
qed (use assms in \<open>simp_all add: deliver_queue get_total_cps_queue set_click_time_def
      append_click_time_def\<close>)


lemma listener_step_at:
  "listener_step cfg t \<lparr>shared = s, listener = Idle\<rparr> = \<lparr>shared = s, listener = Idle\<rparr>"
  "listener_step cfg t \<lparr>shared = s, listener = AtSetTime btn\<rparr>
     = \<lparr>shared = set_click_time t s, listener = AtAppend btn\<rparr>"
  "listener_step cfg t \<lparr>shared = s, listener = AtAppend btn\<rparr>
     = \<lparr>shared = append_click_time s, listener = AtFlag btn\<rparr>"
  "listener_step cfg t \<lparr>shared = s, listener = AtFlag btn\<rparr>
     = \<lparr>shared = s, listener = (if simulating s then Idle else AtLen btn)\<rparr>"
  "listener_step cfg t \<lparr>shared = s, listener = AtLen btn\<rparr>
     = \<lparr>shared = s, listener = (if length (total_click_history s) > 1 then AtPrev btn else Idle)\<rparr>"
  "length (total_click_history s) > 1 \<Longrightarrow>
   listener_step cfg t \<lparr>shared = s, listener = AtPrev btn\<rparr>
     = \<lparr>shared = s, listener =
          (if t - total_click_history s ! (length (total_click_history s) - 2)
               \<le> DOUBLE_CLICK_THRESHOLD cfg then AtEmpty btn else Idle)\<rparr>"
  "listener_step cfg t \<lparr>shared = s, listener = AtEmpty btn\<rparr>
     = \<lparr>shared = s, listener = (if work_queue s = [] then AtPut btn else Idle)\<rparr>"
  "listener_step cfg t \<lparr>shared = s, listener = AtPut btn\<rparr>
     = \<lparr>shared = s\<lparr>work_queue := work_queue s @ [(btn, t)]\<rparr>, listener = Idle\<rparr>"
  by (simp_all add: listener_step_def Let_def)

lemma run_Nil: "run cfg [] sys = sys"
  by (simp add: run_def)

lemma run_Cons: "run cfg (ev # evs) sys = run cfg evs (step cfg sys ev)"
  by (simp add: run_def)

lemma run_append: "run cfg (evs @ evs') sys = run cfg evs' (run cfg evs sys)"
  by (simp add: run_def)

lemma deliver_at:
  "deliver cfg cx cy btn pressed \<lparr>shared = s, listener = Idle\<rparr>
     = \<lparr>shared = s, listener = (if \<not> pressed \<or> btn \<notin> set (TRIGGER_BUTTONS cfg) then Idle
                                 else AtSetTime btn)\<rparr>"
  by (simp add: deliver_def)

lemma callback_uninterrupted:
  "run cfg (callback t_reg t_chk t_put cx cy btn pressed) \<lparr>shared = s, listener = Idle\<rparr>
     = \<lparr>shared = on_click cfg t_reg t_chk t_put cx cy btn pressed s, listener = Idle\<rparr>"
proof (cases "\<not> pressed \<or> btn \<notin> set (TRIGGER_BUTTONS cfg)")
  case True
  then show ?thesis
    by (simp add: callback_def run_Cons run_Nil deliver_at listener_step_at on_click_def)
next
  case guard: False
  define s1 where "s1 = register_click_event t_reg s"
  have start: "run cfg (callback t_reg t_chk t_put cx cy btn pressed) \<lparr>shared = s, listener = Idle\<rparr>
      = run cfg [Listener t_reg, Listener t_reg, Listener t_chk, Listener t_chk, Listener t_put]
          \<lparr>shared = s1, listener = AtFlag btn\<rparr>"
    using guard
    by (simp add: callback_def run_Cons deliver_at listener_step_at register_in_two_steps s1_def)
  have oc: "on_click cfg t_reg t_chk t_put cx cy btn pressed s =
      (if simulating s1 then s1
       else if length (total_click_history s1) > 1 then
         if t_chk - total_click_history s1 ! (length (total_click_history s1) - 2)
              \<le> DOUBLE_CLICK_THRESHOLD cfg then
           if work_queue s1 = [] then s1\<lparr>work_queue := work_queue s1 @ [(btn, t_put)]\<rparr> else s1
         else s1
       else s1)"
    using guard by (simp add: on_click_def Let_def s1_def)
  show ?thesis
  proof (cases "simulating s1")
    case True
    then show ?thesis
      unfolding start oc by (simp add: run_Cons run_Nil listener_step_at)
  next
    case sim: False
    show ?thesis
    proof (cases "length (total_click_history s1) > 1")
      case False
      then show ?thesis
        unfolding start oc using sim by (simp add: run_Cons run_Nil listener_step_at)
    next
      case len: True
      show ?thesis
      proof (cases "t_chk - total_click_history s1 ! (length (total_click_history s1) - 2)
              \<le> DOUBLE_CLICK_THRESHOLD cfg")
        case False
        then show ?thesis
          unfolding start oc using sim len by (simp add: run_Cons run_Nil listener_step_at)
      next
        case gap: True
        show ?thesis
          unfolding start oc using sim len gap
          by (cases "work_queue s1 = []") (simp_all add: run_Cons run_Nil listener_step_at)
      qed
    qed
  qed
qed

text \<open>
  C1, as the code has it. Along every interleaving of the callback's statements with the
  worker's and the damping loop's accesses, started from the initial simulator, at most
  one signal is pending. A callback whose test of \<^verbatim>\<open>_simulating\<close> finds the flag true
  returns there and enqueues nothing. The queue grows only by the \<^verbatim>\<open>put\<close> of a
  callback, and that \<^verbatim>\<open>put\<close> finds the queue empty, since the callback has passed its
  test \<^verbatim>\<open>empty()\<close> and only the worker takes signals out.
\<close>

theorem trigger_queue_invariant:
  "length (work_queue (shared (run cfg evs init_system))) \<le> 1
   \<and> (listener sys = AtFlag btn \<and> simulating (shared sys) \<longrightarrow>
        step cfg sys (Listener t) = sys\<lparr>listener := Idle\<rparr>)
   \<and> (length (work_queue (shared (run cfg evs init_system)))
         < length (work_queue (shared (step cfg (run cfg evs init_system) ev))) \<longrightarrow>
        (\<exists>b u. ev = Listener u \<and> listener (run cfg evs init_system) = AtPut b
            \<and> work_queue (shared (run cfg evs init_system)) = []
            \<and> work_queue (shared (step cfg (run cfg evs init_system) ev)) = [(b, u)]))"
proof (intro conjI impI)
  have inv: "queue_inv (run cfg evs init_system)"
    by (rule queue_inv_run [OF queue_inv_init])
  then show "length (work_queue (shared (run cfg evs init_system))) \<le> 1"
    by (simp add: queue_inv_def)
  {
    assume "length (work_queue (shared (run cfg evs init_system)))
         < length (work_queue (shared (step cfg (run cfg evs init_system) ev)))"
    from step_enqueues [OF this] obtain b u where
      e: "ev = Listener u" "listener (run cfg evs init_system) = AtPut b"
        "work_queue (shared (step cfg (run cfg evs init_system) ev))
           = work_queue (shared (run cfg evs init_system)) @ [(b, u)]"
      by blast
    moreover have "work_queue (shared (run cfg evs init_system)) = []"
      using inv e(2) by (simp add: queue_inv_def)
    ultimately show "\<exists>b u. ev = Listener u \<and> listener (run cfg evs init_system) = AtPut b
            \<and> work_queue (shared (run cfg evs init_system)) = []
            \<and> work_queue (shared (step cfg (run cfg evs init_system) ev)) = [(b, u)]"
      by simp
  }
next
  assume "listener sys = AtFlag btn \<and> simulating (shared sys)"
  then show "step cfg sys (Listener t) = sys\<lparr>listener := Idle\<rparr>"
    by (simp add: listener_step_def)
qed

lemma first_click:
  "on_click DEFAULT_CONFIG 0 0 0 5 5 Left True ClickSimulator_init
     = \<lparr> is_listening = False, simulating = False, work_queue = [],
         total_click_history = [0], last_click_time = 0 \<rparr>"
  by (simp add: on_click_def register_click_event_def ClickSimulator_init_def DEFAULT_CONFIG_def)

lemma second_click:
  "on_click DEFAULT_CONFIG (1 / 10) (1 / 10) (1 / 10) 5 5 Left True
     \<lparr> is_listening = False, simulating = False, work_queue = [],
       total_click_history = [0], last_click_time = 0 \<rparr>
     = \<lparr> is_listening = False, simulating = False, work_queue = [(Left, 1 / 10)],
         total_click_history = [0, 1 / 10], last_click_time = 1 / 10 \<rparr>"
  by (simp add: on_click_def register_click_event_def DEFAULT_CONFIG_def)

lemma third_click_races:
  "run DEFAULT_CONFIG
     [Deliver 5 5 Left True, Listener (2 / 10), Listener (2 / 10), Listener (2 / 10),
      WorkerGet, WorkerSetSimulating True,
      Listener (2 / 10), Listener (2 / 10), Listener (2 / 10)]
     \<lparr>shared = \<lparr> is_listening = False, simulating = False, work_queue = [(Left, 1 / 10)],
         total_click_history = [0, 1 / 10], last_click_time = 1 / 10 \<rparr>, listener = Idle\<rparr>
   = \<lparr>shared = \<lparr> is_listening = False, simulating = True, work_queue = [],
         total_click_history = [0, 1 / 10, 2 / 10], last_click_time = 2 / 10 \<rparr>,
      listener = AtPut Left\<rparr>"
  by (simp add: run_Cons run_Nil deliver_at listener_step_at set_click_time_def
      append_click_time_def work_queue_get_def DEFAULT_CONFIG_def)

lemma race_state:
  "run DEFAULT_CONFIG race_prefix init_system
   = \<lparr>shared = \<lparr> is_listening = False, simulating = True, work_queue = [],
         total_click_history = [0, 1 / 10, 2 / 10], last_click_time = 2 / 10 \<rparr>,
      listener = AtPut Left\<rparr>"
  unfolding race_prefix_def run_append init_system_def callback_uninterrupted
    first_click second_click third_click_races ..

lemma race_put:
  "step DEFAULT_CONFIG (run DEFAULT_CONFIG race_prefix init_system) (Listener (2 / 10))
   = \<lparr>shared = \<lparr> is_listening = False, simulating = True, work_queue = [(Left, 2 / 10)],
         total_click_history = [0, 1 / 10, 2 / 10], last_click_time = 2 / 10 \<rparr>,
      listener = Idle\<rparr>"
  unfolding race_state by (simp add: listener_step_at)

text \<open>
  The claim C1 as stated fails in its second half: the test of the flag (l.190) and the
  \<^verbatim>\<open>put\<close> (l.197-198) are not one step. In the interleaving \<open>race_prefix\<close> the third
  call tests the flag while it is false, the worker then takes the pending signal and sets
  the flag, and the call's \<^verbatim>\<open>put\<close> enqueues a signal while \<^verbatim>\<open>_simulating\<close> is true.
\<close>

theorem enqueue_while_simulating_counterexample:
  "simulating (shared (run DEFAULT_CONFIG race_prefix init_system))
   \<and> work_queue (shared (run DEFAULT_CONFIG race_prefix init_system)) = []
   \<and> work_queue (shared (step DEFAULT_CONFIG (run DEFAULT_CONFIG race_prefix init_system)
        (Listener (2 / 10)))) = [(Left, 2 / 10)]
   \<and> simulating (shared (step DEFAULT_CONFIG (run DEFAULT_CONFIG race_prefix init_system)
        (Listener (2 / 10))))"
  unfolding race_state by (simp add: listener_step_at)

theorem trigger_queue_invariant_witness:
  "length (work_queue (shared (run DEFAULT_CONFIG race_prefix init_system))) \<le> 1
   \<and> listener flag_test_system = AtFlag Left \<and> simulating (shared flag_test_system)
   \<and> step DEFAULT_CONFIG flag_test_system (Listener (1 / 10)) = flag_test_system\<lparr>listener := Idle\<rparr>
   \<and> listener (run DEFAULT_CONFIG race_prefix init_system) = AtPut Left
   \<and> work_queue (shared (step DEFAULT_CONFIG (run DEFAULT_CONFIG race_prefix init_system)
        (Listener (2 / 10)))) = [(Left, 2 / 10)]"
  using trigger_queue_invariant [of DEFAULT_CONFIG race_prefix flag_test_system Left "1 / 10"
      "Listener (2 / 10)"]
  unfolding race_state
  by (simp add: flag_test_system_def listener_step_at listener_step_def)

text \<open>
  C6, as the code has it. On a qualifying press with \<^verbatim>\<open>_simulating\<close> false, exactly one
  signal \<^verbatim>\<open>(button, time)\<close> is enqueued when a timestamp was retained before this click
  (so that two are retained with it), the clock reading of the test minus that previous
  timestamp is at most \<^verbatim>\<open>DOUBLE_CLICK_THRESHOLD\<close>, and no signal is pending; in every
  other case the queue is left as it is.
\<close>

theorem double_click_enqueue:
  assumes "pressed" and "btn \<in> set (TRIGGER_BUTTONS cfg)" and "\<not> simulating s"
  shows "work_queue (on_click cfg t1 t2 t3 cx cy btn pressed s) =
     (if total_click_history s \<noteq> []
         \<and> t2 - last (total_click_history s) \<le> DOUBLE_CLICK_THRESHOLD cfg
         \<and> work_queue s = []
      then [(btn, t3)] else work_queue s)"
proof -
  have nth: "(total_click_history s @ [t1]) ! (length (total_click_history s) - Suc 0)
               = last (total_click_history s)" if "total_click_history s \<noteq> []"
    using that by (simp add: nth_append last_conv_nth)
  have len: "(Suc 0 < Suc (length (total_click_history s))) = (total_click_history s \<noteq> [])"
    by auto
  show ?thesis
    using assms nth
    by (auto simp add: on_click_def register_click_event_def Let_def)
qed

theorem double_click_enqueue_witness:
  "True \<and> Left \<in> set (TRIGGER_BUTTONS DEFAULT_CONFIG) \<and> \<not> simulating one_click_state
   \<and> work_queue (on_click DEFAULT_CONFIG (1 / 10) (1 / 10) (1 / 10) 5 5 Left True one_click_state)
       = [(Left, 1 / 10)]"
  using double_click_enqueue [of True Left DEFAULT_CONFIG one_click_state
      "1 / 10" "1 / 10" "1 / 10" 5 5]
  by (simp add: one_click_state_def ClickSimulator_init_def DEFAULT_CONFIG_def)

text \<open>
  The claim C6 as stated fails when a signal is still pending: two timestamps are
  retained, the gap is 0.1 s, \<^verbatim>\<open>_simulating\<close> is false, and nothing is enqueued.
\<close>

theorem double_click_pending_counterexample:
  "\<not> simulating pending_state
   \<and> 2 \<le> length (total_click_history
        (on_click DEFAULT_CONFIG (2 / 10) (2 / 10) (2 / 10) 0 0 Left True pending_state))
   \<and> (2 / 10 :: real) - 1 / 10 \<le> DOUBLE_CLICK_THRESHOLD DEFAULT_CONFIG
   \<and> work_queue (on_click DEFAULT_CONFIG (2 / 10) (2 / 10) (2 / 10) 0 0 Left True pending_state)
       = work_queue pending_state"
  by (simp add: on_click_def register_click_event_def pending_state_def
      ClickSimulator_init_def DEFAULT_CONFIG_def Let_def)


section \<open>Properties of the simulation worker\<close>

text \<open>
  C3. Whatever the burst does (all units run, the loop breaks because
  \<^verbatim>\<open>_is_listening\<close> went false, or a unit raises), \<^verbatim>\<open>_simulating\<close> is false in the
  state the loop body leaves.
\<close>

theorem worker_clears_simulating:
  "\<not> simulating (fst (snd (worker_on_signal cfg btn k envs s)))"
  by (simp add: worker_on_signal_def try_finally_def split: prod.splits)




















lemma no_dangling_append:
  "no_dangling_press held tr \<Longrightarrow> no_dangling_press None tr'
     \<Longrightarrow> no_dangling_press held (tr @ tr')"
  by (induction held tr rule: no_dangling_press.induct) auto

lemma burst_unit_paired:
  "\<not> release_raises env \<Longrightarrow> burst_unit cfg btn env s = (r, s', tr)
     \<Longrightarrow> no_dangling_press None tr"
  by (auto simp add: burst_unit_def Let_def split: if_splits)

lemma burst_loop_paired:
  "(\<forall>j. i \<le> j \<and> j < i + n \<longrightarrow> \<not> release_raises (envs j))
     \<Longrightarrow> burst_loop cfg btn envs i n s = (r, s', tr)
     \<Longrightarrow> no_dangling_press None tr"
proof (induction n arbitrary: i s r s' tr)
  case 0
  then show ?case by simp
next
  case (Suc n)
  define s0 where "s0 = (if stop_called (envs i) then s\<lparr>is_listening := False\<rparr> else s)"
  have here: "\<not> release_raises (envs i)" using Suc.prems(1) by simp
  have later: "\<forall>j. Suc i \<le> j \<and> j < Suc i + n \<longrightarrow> \<not> release_raises (envs j)"
    using Suc.prems(1) by simp
  show ?case
  proof (cases "is_listening s0")
    case False
    with Suc.prems(2) show ?thesis by (simp add: s0_def Let_def split: if_splits)
  next
    case True
    obtain r1 s1 tr1 where u: "burst_unit cfg btn (envs i) s0 = (r1, s1, tr1)"
      by (cases "burst_unit cfg btn (envs i) s0") auto
    have p1: "no_dangling_press None tr1" using burst_unit_paired [OF here u] .
    show ?thesis
    proof (cases r1)
      case (Inl err)
      with Suc.prems(2) True u p1 show ?thesis
        by (simp add: s0_def Let_def split: if_splits)
    next
      case (Inr v)
      obtain r2 s2 tr2 where l: "burst_loop cfg btn envs (Suc i) n s1 = (r2, s2, tr2)"
        by (cases "burst_loop cfg btn envs (Suc i) n s1") auto
      have p2: "no_dangling_press None tr2" using Suc.IH [OF later l] .
      have "tr = tr1 @ tr2"
        using Suc.prems(2) True u l Inr by (simp add: s0_def Let_def split: if_splits)
      with p1 p2 show ?thesis by (simp add: no_dangling_append)
    qed
  qed
qed

text \<open>
  C10. Whenever \<^verbatim>\<open>stop()\<close> runs during a burst, and whether or not a press raises, the
  trace of the burst leaves no press dangling, provided no release call itself raises:
  every emitted press is followed by the release of the same button before the next
  press and before the burst ends.
\<close>

theorem press_always_released:
  assumes "\<forall>i < clicks_to_add k. \<not> release_raises (envs i)"
  shows "no_dangling_press None (snd (snd (worker_on_signal cfg btn k envs s)))"
proof -
  obtain r s' tr where l:
    "burst_loop cfg btn envs 0 (clicks_to_add k) (s\<lparr>simulating := True\<rparr>) = (r, s', tr)"
    by (cases "burst_loop cfg btn envs 0 (clicks_to_add k) (s\<lparr>simulating := True\<rparr>)") auto
  have "\<forall>j. 0 \<le> j \<and> j < 0 + clicks_to_add k \<longrightarrow> \<not> release_raises (envs j)"
    using assms by simp
  from burst_loop_paired [OF this l] have "no_dangling_press None tr" .
  then show ?thesis
    by (simp add: worker_on_signal_def try_finally_def l)
qed

theorem press_always_released_witness:
  "no_dangling_press None
     (snd (snd (worker_on_signal DEFAULT_CONFIG Left 1
        (\<lambda>i. steady_unit\<lparr>stop_called := (i = 1)\<rparr>) one_click_state)))"
  using press_always_released [of 1 "\<lambda>i. steady_unit\<lparr>stop_called := (i = 1)\<rparr>"
      DEFAULT_CONFIG Left one_click_state]
  by (simp add: steady_unit_def)


section \<open>Properties of the sensitivity engine\<close>

lemma init_default: "SensitivityEngine_init DEFAULT_CONFIG None = Inr default_engine"
  by (simp add: SensitivityEngine_init_def py_div_def DEFAULT_CONFIG_def default_engine_def
      GetCursorPos_def)

lemma init_fields:
  assumes "SensitivityEngine_init cfg answer = Inr e"
    and "0 < POLLING_RATE_HZ cfg" and "0 < SENS_RAMP_DOWN_MS cfg" and "0 < SENS_RAMP_UP_MS cfg"
  shows "multiplier e = SENS_MULTIPLIER cfg"
    and "current_weight e = 1"
    and "step_down e = (1000 / POLLING_RATE_HZ cfg) / SENS_RAMP_DOWN_MS cfg"
    and "step_up e = (1000 / POLLING_RATE_HZ cfg) / SENS_RAMP_UP_MS cfg"
  using assms
  by (auto simp add: SensitivityEngine_init_def py_div_def split: if_splits)

lemma init_total:
  assumes "0 < POLLING_RATE_HZ cfg" and "0 < SENS_RAMP_DOWN_MS cfg" and "0 < SENS_RAMP_UP_MS cfg"
  shows "\<exists>e. SensitivityEngine_init cfg answer = Inr e"
  using assms
  by (simp add: SensitivityEngine_init_def py_div_def)

lemma ramp_keeps:
  "multiplier (ramp e a) = multiplier e" "step_down (ramp e a) = step_down e"
  "step_up (ramp e a) = step_up e" "last_pos (ramp e a) = last_pos e"
  "running (ramp e a) = running e"
  by (simp_all add: ramp_def Let_def)

lemma ramp_inv_ramp: "ramp_inv e \<Longrightarrow> ramp_inv (ramp e a)"
  by (auto simp add: ramp_inv_def ramp_def Let_def)

lemma counter_move_keeps:
  "counter_move e answer = (e', tr) \<Longrightarrow>
     multiplier e' = multiplier e \<and> step_down e' = step_down e \<and> step_up e' = step_up e
     \<and> current_weight e' = current_weight e \<and> running e' = running e"
  by (auto simp add: counter_move_def Let_def split: if_splits prod.splits bool.splits)

lemma ramp_inv_counter_move:
  "ramp_inv e \<Longrightarrow> counter_move e answer = (e', tr) \<Longrightarrow> ramp_inv e'"
  using counter_move_keeps [of e answer e' tr] by (simp add: ramp_inv_def)

lemma loop_tick_inv:
  assumes "ramp_inv e" and "loop_tick cfg env e s = (r, e', s', tr)"
  shows "ramp_inv e' \<and> multiplier e' = multiplier e"
proof (cases "get_total_cps cfg (t_cps env) s")
  case (Pair res s1)
  show ?thesis
  proof (cases res)
    case (Inl err)
    with Pair assms show ?thesis by (simp add: loop_tick_def)
  next
    case (Inr cps)
    define a where "a = (cps \<ge> CPS_SLOWDOWN_THRESHOLD cfg
        \<and> (t_now env - last_click_time s1) * 1000 < STALE_TIMEOUT_MS cfg)"
    obtain e2 tr2 where cm: "counter_move (ramp e a) (cursor env) = (e2, tr2)"
      by (cases "counter_move (ramp e a) (cursor env)") auto
    have "e' = e2"
      using assms(2) Pair Inr cm
      by (simp add: loop_tick_def Let_def a_def split: if_splits)
    moreover have "ramp_inv e2"
      using ramp_inv_counter_move [OF ramp_inv_ramp [OF assms(1)] cm] .
    moreover have "multiplier e2 = multiplier e"
      using counter_move_keeps [OF cm] by (simp add: ramp_keeps)
    ultimately show ?thesis by simp
  qed
qed

lemma loop_from_inv:
  "ramp_inv e \<Longrightarrow> loop_from cfg envs e s = (r, e', s', tr)
     \<Longrightarrow> ramp_inv e' \<and> multiplier e' = multiplier e"
proof (induction envs arbitrary: e s r e' s' tr)
  case Nil
  then show ?case by simp
next
  case (Cons env envs)
  define e0 where "e0 = (if engine_stopped env then e\<lparr>running := False\<rparr> else e)"
  define s0 where "s0 = foldl (\<lambda>st t. register_click_event t st) s (registered env)"
  have inv0: "ramp_inv e0" and m0: "multiplier e0 = multiplier e"
    using Cons.prems(1) by (simp_all add: e0_def ramp_inv_def)
  show ?case
  proof (cases "running e0")
    case False
    with Cons.prems(2) have "e' = e0"
      by (simp add: e0_def s0_def Let_def split: if_splits)
    with inv0 m0 show ?thesis by simp
  next
    case True
    obtain r1 e1 s1 tr1 where t: "loop_tick cfg env e0 s0 = (r1, e1, s1, tr1)"
      by (cases "loop_tick cfg env e0 s0") auto
    from loop_tick_inv [OF inv0 t] have inv1: "ramp_inv e1" and m1: "multiplier e1 = multiplier e0"
      by simp_all
    show ?thesis
    proof (cases r1)
      case (Inl err)
      with Cons.prems(2) True t have "e' = e1"
        by (simp add: e0_def s0_def Let_def split: if_splits)
      with inv1 m1 m0 show ?thesis by simp
    next
      case (Inr v)
      obtain r2 e2 s2 tr2 where l: "loop_from cfg envs e1 s1 = (r2, e2, s2, tr2)"
        by (cases "loop_from cfg envs e1 s1") auto
      from Cons.IH [OF inv1 l] have "ramp_inv e2" "multiplier e2 = multiplier e1" by simp_all
      moreover have "e' = e2"
        using Cons.prems(2) True t l Inr
        by (simp add: e0_def s0_def Let_def split: if_splits)
      ultimately show ?thesis using m1 m0 by simp
    qed
  qed
qed

text \<open>
  C7. For an engine built from a configuration with multiplier at most 1 and positive
  polling rate and ramp durations, after any number of passes of the damping loop, in
  any environment, the weight lies in the closed interval from the multiplier to 1.
\<close>

theorem weight_bounded:
  assumes "SensitivityEngine_init cfg answer = Inr e0"
    and "SENS_MULTIPLIER cfg \<le> 1"
    and "0 < POLLING_RATE_HZ cfg" and "0 < SENS_RAMP_DOWN_MS cfg" and "0 < SENS_RAMP_UP_MS cfg"
  shows "SENS_MULTIPLIER cfg \<le> current_weight (fst (snd (loop cfg envs e0 s)))
       \<and> current_weight (fst (snd (loop cfg envs e0 s))) \<le> 1"
proof -
  note f = init_fields [OF assms(1,3,4,5)]
  have "ramp_inv (e0\<lparr>running := True\<rparr>)"
    using f assms by (simp add: ramp_inv_def)
  moreover obtain r e' s' tr where l: "loop_from cfg envs (e0\<lparr>running := True\<rparr>) s = (r, e', s', tr)"
    by (cases "loop_from cfg envs (e0\<lparr>running := True\<rparr>) s") auto
  ultimately have "ramp_inv e' \<and> multiplier e' = multiplier (e0\<lparr>running := True\<rparr>)"
    by (rule loop_from_inv)
  then show ?thesis
    using f(1) by (simp add: loop_def l ramp_inv_def)
qed

lemma ramp_rounded_exact: "ramp_rounded (\<lambda>x. x) e a = ramp e a"
  by (simp add: ramp_rounded_def ramp_def)

lemma ramp_rounded_keeps:
  "multiplier (ramp_rounded rnd e a) = multiplier e"
  "step_down (ramp_rounded rnd e a) = step_down e"
  "step_up (ramp_rounded rnd e a) = step_up e"
  by (simp_all add: ramp_rounded_def Let_def)

lemma ramp_passes_keeps:
  "multiplier (ramp_passes rnd e a n) = multiplier e"
  "step_down (ramp_passes rnd e a n) = step_down e"
  "step_up (ramp_passes rnd e a n) = step_up e"
  by (induction n) (simp_all add: ramp_rounded_keeps)

lemma rounded_near:
  fixes rnd :: "real \<Rightarrow> real" and x u b :: real
  assumes "\<forall>x. \<bar>rnd x - x\<bar> \<le> u * \<bar>x\<bar>" and "\<bar>x\<bar> \<le> b" and "0 \<le> b"
  shows "x - u * b \<le> rnd x \<and> rnd x \<le> x + u * b"
proof -
  have u0: "0 \<le> u" using assms(1) [rule_format, of 1] by simp
  have "\<bar>rnd x - x\<bar> \<le> u * \<bar>x\<bar>" using assms(1) by blast
  also have "u * \<bar>x\<bar> \<le> u * b" using assms(2) u0 by (rule mult_left_mono)
  finally show ?thesis by linarith
qed

lemma ramp_down_envelope:
  fixes rnd :: "real \<Rightarrow> real" and u :: real
  assumes rnd: "\<forall>x. \<bar>rnd x - x\<bar> \<le> u * \<bar>x\<bar>"
    and m: "0 \<le> multiplier e" "multiplier e \<le> 1"
    and s: "u \<le> step_down e" "step_down e \<le> 1"
    and start: "current_weight e = 1"
  shows "max (multiplier e) (1 - real n * (step_down e + u)) \<le> current_weight (ramp_passes rnd e True n)
       \<and> current_weight (ramp_passes rnd e True n) \<le> max (multiplier e) (1 - real n * (step_down e - u))"
proof (induction n)
  case 0
  show ?case using start m by simp
next
  case (Suc n)
  define w where "w = current_weight (ramp_passes rnd e True n)"
  define m where "m = multiplier e"
  define sd where "sd = step_down e"
  define lo where "lo = 1 - real n * (sd + u)"
  define hi where "hi = 1 - real n * (sd - u)"
  have u0: "0 \<le> u" using rnd [rule_format, of 1] by simp
  have lo': "1 - real (Suc n) * (sd + u) = lo - (sd + u)" by (simp add: lo_def algebra_simps)
  have hi': "1 - real (Suc n) * (sd - u) = hi - (sd - u)" by (simp add: hi_def algebra_simps)
  have hi1: "hi \<le> 1" using s(1) by (simp add: hi_def sd_def)
  have ih: "max m lo \<le> w" "w \<le> max m hi"
    using Suc.IH by (simp_all add: w_def m_def sd_def lo_def hi_def)
  have m01: "0 \<le> m" "m \<le> 1" using assms(2,3) by (simp_all add: m_def)
  have sd01: "u \<le> sd" "sd \<le> 1" using s by (simp_all add: sd_def)
  have fields: "multiplier (ramp_passes rnd e True n) = m" "step_down (ramp_passes rnd e True n) = sd"
    by (simp_all add: ramp_passes_keeps m_def sd_def)
  have next_w: "current_weight (ramp_passes rnd e True (Suc n))
      = (if w > m then max m (rnd (w - sd)) else w)"
    using ih(1) by (auto simp add: ramp_rounded_def Let_def fields w_def [symmetric])
  show ?case
  proof (cases "w > m")
    case False
    then have wm: "w = m" using ih(1) by simp
    have "lo \<le> m" using ih(1) wm by simp
    then have "max m (lo - (sd + u)) \<le> m" using sd01 u0 by simp
    moreover have "m \<le> max m (hi - (sd - u))" by simp
    ultimately show ?thesis
      using next_w False wm
      by (simp only: lo' hi' m_def [symmetric] sd_def [symmetric] if_False)
  next
    case True
    then have whi: "w \<le> hi" using ih(2) by (simp add: max_def split: if_splits)
    have wlo: "lo \<le> w" using ih(1) by simp
    have "\<bar>w - sd\<bar> \<le> 1" using True m01 sd01 whi hi1 u0 by (simp add: abs_le_iff)
    from rounded_near [OF rnd this] have near: "w - sd - u \<le> rnd (w - sd)" "rnd (w - sd) \<le> w - sd + u"
      by simp_all
    have "max m (lo - (sd + u)) \<le> max m (rnd (w - sd))"
      using near(1) wlo by (intro max.mono) simp_all
    moreover have "max m (rnd (w - sd)) \<le> max m (hi - (sd - u))"
      using near(2) whi by (intro max.mono) simp_all
    ultimately show ?thesis
      using next_w True
      by (simp only: lo' hi' m_def [symmetric] sd_def [symmetric] if_True)
  qed
qed

lemma ramp_up_envelope:
  fixes rnd :: "real \<Rightarrow> real" and u :: real
  assumes rnd: "\<forall>x. \<bar>rnd x - x\<bar> \<le> u * \<bar>x\<bar>"
    and m: "0 \<le> multiplier e" "multiplier e \<le> 1"
    and s: "2 * u \<le> step_up e" "step_up e \<le> 1"
    and start: "current_weight e = multiplier e"
  shows "min 1 (multiplier e + real n * (step_up e - 2 * u)) \<le> current_weight (ramp_passes rnd e False n)
       \<and> current_weight (ramp_passes rnd e False n) \<le> min 1 (multiplier e + real n * (step_up e + 2 * u))"
proof (induction n)
  case 0
  show ?case using start m by simp
next
  case (Suc n)
  define w where "w = current_weight (ramp_passes rnd e False n)"
  define m where "m = multiplier e"
  define su where "su = step_up e"
  define lo where "lo = m + real n * (su - 2 * u)"
  define hi where "hi = m + real n * (su + 2 * u)"
  have u0: "0 \<le> u" using rnd [rule_format, of 1] by simp
  have lo': "m + real (Suc n) * (su - 2 * u) = lo + (su - 2 * u)" by (simp add: lo_def algebra_simps)
  have hi': "m + real (Suc n) * (su + 2 * u) = hi + (su + 2 * u)" by (simp add: hi_def algebra_simps)
  have m01: "0 \<le> m" "m \<le> 1" using assms(2,3) by (simp_all add: m_def)
  have su01: "2 * u \<le> su" "su \<le> 1" using s by (simp_all add: su_def)
  have lom: "m \<le> lo" using su01(1) by (simp add: lo_def)
  have ih: "min 1 lo \<le> w" "w \<le> min 1 hi"
    using Suc.IH by (simp_all add: w_def m_def su_def lo_def hi_def)
  have fields: "multiplier (ramp_passes rnd e False n) = m" "step_up (ramp_passes rnd e False n) = su"
    by (simp_all add: ramp_passes_keeps m_def su_def)
  have w1: "w \<le> 1" using ih(2) by simp
  have next_w: "current_weight (ramp_passes rnd e False (Suc n))
      = (if w < 1 then min 1 (rnd (w + su)) else w)"
    using w1 by (auto simp add: ramp_rounded_def Let_def fields w_def [symmetric])
  show ?case
  proof (cases "w < 1")
    case False
    then have wm: "w = 1" using w1 by simp
    have "1 \<le> hi" using ih(2) wm by simp
    then have "1 \<le> min 1 (hi + (su + 2 * u))" using su01 u0 by simp
    moreover have "min 1 (lo + (su - 2 * u)) \<le> 1" by simp
    ultimately show ?thesis
      using next_w False wm
      by (simp only: lo' hi' m_def [symmetric] su_def [symmetric] if_False)
  next
    case True
    have wlo: "lo \<le> w" using ih(1) True by (simp add: min_def split: if_splits)
    have whi: "w \<le> hi" using ih(2) by simp
    have w0: "0 \<le> w" using wlo lom m01 by simp
    have "\<bar>w + su\<bar> \<le> 2" using True w0 su01 u0 by (simp add: abs_le_iff)
    from rounded_near [OF rnd this]
    have near: "w + su - 2 * u \<le> rnd (w + su)" "rnd (w + su) \<le> w + su + 2 * u"
      by (simp_all add: mult.commute)
    have "min 1 (lo + (su - 2 * u)) \<le> min 1 (rnd (w + su))"
      using near(1) wlo by (intro min.mono) simp_all
    moreover have "min 1 (rnd (w + su)) \<le> min 1 (hi + (su + 2 * u))"
      using near(2) whi by (intro min.mono) simp_all
    ultimately show ?thesis
      using next_w True
      by (simp only: lo' hi' m_def [symmetric] su_def [symmetric] if_True)
  qed
qed

text \<open>
  C4, as the code has it. For a rounding \<open>rnd\<close> of relative error at most \<open>u\<close> (binary
  double precision: \<open>u = 1 / 2 ^ 53\<close>; exact arithmetic: \<open>u = 0\<close>), a multiplier in
  \<open>[0, 1]\<close>, \<open>step_down\<close> in \<open>[u, 1]\<close> and \<open>step_up\<close> in \<open>[2 * u, 1]\<close>: under a sustained decision the weight has gone
  from 1 down to the multiplier after every number \<open>n\<close> of passes with
  \<open>n * (step_down - u) \<ge> 1 - multiplier\<close>, and not yet while
  \<open>n * (step_down + u) < 1 - multiplier\<close>; it has gone from the multiplier back up to 1
  after every \<open>n\<close> with \<open>n * (step_up - 2 * u) \<ge> 1 - multiplier\<close>, and not yet while
  \<open>n * (step_up + 2 * u) < 1 - multiplier\<close>. With \<open>step_down = tick / RAMP_DOWN_MS\<close> and
  \<open>step_up = tick / RAMP_UP_MS\<close> a ramp therefore ends \<open>(1 - multiplier)\<close> times its
  configured duration after it starts, up to one tick period and the rounding.
\<close>

theorem ramp_duration:
  fixes rnd :: "real \<Rightarrow> real" and u :: real
  assumes "\<forall>x. \<bar>rnd x - x\<bar> \<le> u * \<bar>x\<bar>"
    and "0 \<le> multiplier e" and "multiplier e \<le> 1"
    and "u \<le> step_down e" and "step_down e \<le> 1"
    and "2 * u \<le> step_up e" and "step_up e \<le> 1"
  shows "(current_weight e = 1 \<longrightarrow>
            (1 - multiplier e \<le> real n * (step_down e - u) \<longrightarrow>
               current_weight (ramp_passes rnd e True n) = multiplier e)
          \<and> (real n * (step_down e + u) < 1 - multiplier e \<longrightarrow>
               multiplier e < current_weight (ramp_passes rnd e True n)))
       \<and> (current_weight e = multiplier e \<longrightarrow>
            (1 - multiplier e \<le> real n * (step_up e - 2 * u) \<longrightarrow>
               current_weight (ramp_passes rnd e False n) = 1)
          \<and> (real n * (step_up e + 2 * u) < 1 - multiplier e \<longrightarrow>
               current_weight (ramp_passes rnd e False n) < 1))"
proof (intro conjI impI)
  assume st: "current_weight e = 1"
  note env = ramp_down_envelope [OF assms(1,2,3,4,5) st, of n]
  {
    assume "1 - multiplier e \<le> real n * (step_down e - u)"
    then have "max (multiplier e) (1 - real n * (step_down e - u)) = multiplier e" by simp
    with env show "current_weight (ramp_passes rnd e True n) = multiplier e" by simp
  }
  {
    assume "real n * (step_down e + u) < 1 - multiplier e"
    then have "multiplier e < max (multiplier e) (1 - real n * (step_down e + u))" by simp
    with env show "multiplier e < current_weight (ramp_passes rnd e True n)" by linarith
  }
next
  assume st: "current_weight e = multiplier e"
  note env = ramp_up_envelope [OF assms(1,2,3,6,7) st, of n]
  {
    assume "1 - multiplier e \<le> real n * (step_up e - 2 * u)"
    then have "min 1 (multiplier e + real n * (step_up e - 2 * u)) = 1" by simp
    with env show "current_weight (ramp_passes rnd e False n) = 1" by simp
  }
  {
    assume "real n * (step_up e + 2 * u) < 1 - multiplier e"
    then have "min 1 (multiplier e + real n * (step_up e + 2 * u)) < 1" by simp
    with env show "current_weight (ramp_passes rnd e False n) < 1" by linarith
  }
qed

lemma init_dyadic: "SensitivityEngine_init dyadic_config None = Inr dyadic_engine"
  by (simp add: SensitivityEngine_init_def py_div_def dyadic_config_def DEFAULT_CONFIG_def
      dyadic_engine_def GetCursorPos_def)

lemma dyadic_down:
  "current_weight (ramp_passes id dyadic_engine True (Suc (Suc (Suc 0)))) = 5 / 8"
  "current_weight (ramp_passes id dyadic_engine True (Suc (Suc (Suc (Suc 0))))) = 1 / 2"
  by (simp_all add: ramp_rounded_def dyadic_engine_def Let_def)

lemma dyadic_up:
  "current_weight (ramp_passes id (dyadic_engine\<lparr>current_weight := 1 / 2\<rparr>) False (Suc 0)) = 3 / 4"
  "current_weight (ramp_passes id (dyadic_engine\<lparr>current_weight := 1 / 2\<rparr>) False (Suc (Suc 0))) = 1"
  by (simp_all add: ramp_rounded_def dyadic_engine_def Let_def)

text \<open>
  The claim C4 as stated fails. With \<^verbatim>\<open>SENS_RAMP_DOWN_MS\<close> = 32 (tick period 4 ms,
  multiplier 0.5) the code computes the step 0.125 and the weights 0.875, 0.75, 0.625
  and 0.5, all exactly: the ramp down is not complete after 3 passes and is complete
  after 4, that is after 16 ms, four tick periods short of 32 ms.
\<close>

theorem ramp_duration_counterexample:
  "SensitivityEngine_init dyadic_config None = Inr dyadic_engine
   \<and> current_weight (ramp_passes id dyadic_engine True 3) \<noteq> multiplier dyadic_engine
   \<and> current_weight (ramp_passes id dyadic_engine True 4) = multiplier dyadic_engine
   \<and> \<not> \<bar>4 * (1000 / POLLING_RATE_HZ dyadic_config) - SENS_RAMP_DOWN_MS dyadic_config\<bar>
          \<le> 1000 / POLLING_RATE_HZ dyadic_config"
proof -
  have n: "(3 :: nat) = Suc (Suc (Suc 0))" "(4 :: nat) = Suc (Suc (Suc (Suc 0)))" by simp_all
  show ?thesis
    unfolding n dyadic_down init_dyadic
    by (simp add: dyadic_engine_def dyadic_config_def DEFAULT_CONFIG_def)
qed

theorem ramp_duration_witness:
  "current_weight (ramp_passes id dyadic_engine True 4) = 1 / 2
   \<and> 1 / 2 < current_weight (ramp_passes id dyadic_engine True 3)
   \<and> current_weight (ramp_passes id (dyadic_engine\<lparr>current_weight := 1 / 2\<rparr>) False 2) = 1
   \<and> current_weight (ramp_passes id (dyadic_engine\<lparr>current_weight := 1 / 2\<rparr>) False 1) < 1"
proof -
  have f: "multiplier dyadic_engine = 1 / 2" "step_down dyadic_engine = 1 / 8"
    "step_up dyadic_engine = 1 / 4" "current_weight dyadic_engine = 1"
    by (simp_all add: dyadic_engine_def)
  from ramp_duration [of id 0 dyadic_engine 4] ramp_duration [of id 0 dyadic_engine 3]
  have down: "current_weight (ramp_passes id dyadic_engine True 4) = 1 / 2
      \<and> 1 / 2 < current_weight (ramp_passes id dyadic_engine True 3)"
    by (simp add: f)
  from ramp_duration [of id 0 "dyadic_engine\<lparr>current_weight := 1 / 2\<rparr>" 2]
    ramp_duration [of id 0 "dyadic_engine\<lparr>current_weight := 1 / 2\<rparr>" 1]
  have up: "current_weight (ramp_passes id (dyadic_engine\<lparr>current_weight := 1 / 2\<rparr>) False 2) = 1
      \<and> current_weight (ramp_passes id (dyadic_engine\<lparr>current_weight := 1 / 2\<rparr>) False 1) < 1"
    by (simp add: f)
  from down up show ?thesis by simp
qed

text \<open>
  With the defaults (multiplier 0.5, step the double nearest to 0.1) and double-precision
  rounding the ramp down is not complete after 4 passes and is complete after 6, that is
  within 24 ms, against \<^verbatim>\<open>SENS_RAMP_DOWN_MS\<close> = 40.
\<close>

lemma default_ramp_rounded:
  fixes rnd :: "real \<Rightarrow> real"
  assumes "\<forall>x. \<bar>rnd x - x\<bar> \<le> (1 / 9007199254740992) * \<bar>x\<bar>"
    and "multiplier e = 1 / 2" and "current_weight e = 1"
    and "\<bar>step_down e - 1 / 10\<bar> \<le> 1 / 72057594037927936"
  shows "1 / 2 < current_weight (ramp_passes rnd e True 4)
       \<and> current_weight (ramp_passes rnd e True 6) = 1 / 2"
proof -
  have lo: "1 / 10 - 1 / 72057594037927936 \<le> step_down e"
    and hi: "step_down e \<le> 1 / 10 + 1 / 72057594037927936"
    using assms(4) by linarith+
  have s: "1 / 9007199254740992 \<le> step_down e" "step_down e \<le> 1"
    using lo hi by argo+
  have m: "0 \<le> multiplier e" "multiplier e \<le> 1" using assms(2) by simp_all
  note e4 = ramp_down_envelope [OF assms(1) m s assms(3), of 4]
  note e6 = ramp_down_envelope [OF assms(1) m s assms(3), of 6]
  have "1 / 2 < 1 - 4 * (step_down e + 1 / 9007199254740992)"
    using hi by argo
  then have a: "1 / 2 < current_weight (ramp_passes rnd e True 4)"
    using e4 by simp
  have "1 - 6 * (step_down e - 1 / 9007199254740992) \<le> 1 / 2"
    using lo by argo
  then have "max (multiplier e) (1 - 6 * (step_down e - 1 / 9007199254740992)) = 1 / 2"
    by (simp add: assms(2))
  then have b: "current_weight (ramp_passes rnd e True 6) = 1 / 2"
    using e6 by (simp add: assms(2))
  from a b show ?thesis by simp
qed

theorem weight_bounded_witness:
  "SENS_MULTIPLIER DEFAULT_CONFIG
      \<le> current_weight (fst (snd (loop DEFAULT_CONFIG [failed_tick, still_tick] default_engine clicking_state)))
   \<and> current_weight (fst (snd (loop DEFAULT_CONFIG [failed_tick, still_tick] default_engine clicking_state))) \<le> 1"
  using weight_bounded [of DEFAULT_CONFIG None default_engine "[failed_tick, still_tick]" clicking_state]
    init_default
  by (simp add: DEFAULT_CONFIG_def)












lemma clicking_cps:
  "get_total_cps DEFAULT_CONFIG (1104 / 1000) clicking_state = (Inr 10, clicking_state)"
  "get_total_cps DEFAULT_CONFIG (1108 / 1000) clicking_state = (Inr 10, clicking_state)"
  by (simp_all add: get_total_cps_def clicking_state_def ClickSimulator_init_def
      DEFAULT_CONFIG_def Let_def)

lemma damped_ramp:
  "ramp (damped_engine\<lparr>last_pos := p\<rparr>) True = damped_engine\<lparr>last_pos := p\<rparr>"
  by (simp add: ramp_def damped_engine_def default_engine_def Let_def)

lemma damped_failed_read:
  "counter_move (damped_engine\<lparr>last_pos := p\<rparr>) None = (damped_engine\<lparr>last_pos := POINT_new\<rparr>, [])"
  by (simp add: counter_move_def GetCursorPos_def damped_engine_def default_engine_def)

lemma py_int_250: "py_int (- 250) = - 250"
  by (simp add: py_int_def)

lemma damped_after_failure:
  "counter_move (damped_engine\<lparr>last_pos := POINT_new\<rparr>) (Some \<lparr>pt_x = 500, pt_y = 500\<rparr>)
     = (damped_engine\<lparr>last_pos := \<lparr>pt_x = 250, pt_y = 250\<rparr>\<rparr>, [Move (- 250) (- 250)])"
  by (simp add: counter_move_def GetCursorPos_def damped_engine_def default_engine_def
      POINT_new_def Let_def py_int_250)

lemma damped_still:
  "counter_move (damped_engine\<lparr>last_pos := \<lparr>pt_x = 500, pt_y = 500\<rparr>\<rparr>) (Some \<lparr>pt_x = 500, pt_y = 500\<rparr>)
     = (damped_engine\<lparr>last_pos := \<lparr>pt_x = 500, pt_y = 500\<rparr>\<rparr>, [])"
  by (simp add: counter_move_def GetCursorPos_def damped_engine_def default_engine_def Let_def)

lemma damped_self: "damped_engine\<lparr>last_pos := \<lparr>pt_x = 500, pt_y = 500\<rparr>\<rparr> = damped_engine"
  by (simp add: damped_engine_def)

lemma tick_active:
  "(10 \<ge> CPS_SLOWDOWN_THRESHOLD DEFAULT_CONFIG
      \<and> (t_now failed_tick - last_click_time clicking_state) * 1000 < STALE_TIMEOUT_MS DEFAULT_CONFIG) = True"
  "(10 \<ge> CPS_SLOWDOWN_THRESHOLD DEFAULT_CONFIG
      \<and> (t_now still_tick - last_click_time clicking_state) * 1000 < STALE_TIMEOUT_MS DEFAULT_CONFIG) = True"
  by (simp_all add: DEFAULT_CONFIG_def failed_tick_def still_tick_def clicking_state_def
      ClickSimulator_init_def)

lemma tick_fields:
  "t_cps failed_tick = 1104 / 1000" "cursor failed_tick = None"
  "t_cps still_tick = 1108 / 1000" "cursor still_tick = Some \<lparr>pt_x = 500, pt_y = 500\<rparr>"
  "engine_stopped failed_tick = False" "engine_stopped still_tick = False"
  "registered failed_tick = []" "registered still_tick = []"
  "POLLING_RATE_HZ DEFAULT_CONFIG = 250" "running (damped_engine\<lparr>last_pos := p\<rparr>) = True"
  "running damped_engine = True"
  by (simp_all add: failed_tick_def still_tick_def DEFAULT_CONFIG_def damped_engine_def)

lemma failed_tick_result:
  "loop_tick DEFAULT_CONFIG failed_tick (damped_engine\<lparr>last_pos := p\<rparr>) clicking_state
     = (Inr (), damped_engine\<lparr>last_pos := POINT_new\<rparr>, clicking_state, [Sleep (1 / 250)])"
  unfolding loop_tick_def Let_def tick_fields clicking_cps
  by (simp only: prod.case sum.case tick_active damped_ramp damped_failed_read) simp

lemma still_tick_after_failure:
  "loop_tick DEFAULT_CONFIG still_tick (damped_engine\<lparr>last_pos := POINT_new\<rparr>) clicking_state
     = (Inr (), damped_engine\<lparr>last_pos := \<lparr>pt_x = 250, pt_y = 250\<rparr>\<rparr>, clicking_state,
        [Move (- 250) (- 250), Sleep (1 / 250)])"
  unfolding loop_tick_def Let_def tick_fields clicking_cps
  by (simp only: prod.case sum.case tick_active damped_ramp damped_after_failure) simp

lemma still_tick_result:
  "loop_tick DEFAULT_CONFIG still_tick (damped_engine\<lparr>last_pos := \<lparr>pt_x = 500, pt_y = 500\<rparr>\<rparr>) clicking_state
     = (Inr (), damped_engine\<lparr>last_pos := \<lparr>pt_x = 500, pt_y = 500\<rparr>\<rparr>, clicking_state,
        [Sleep (1 / 250)])"
  unfolding loop_tick_def Let_def tick_fields clicking_cps
  by (simp only: prod.case sum.case tick_active damped_ramp damped_still) simp

lemma failed_read_no_move:
  "snd (counter_move e None) = []
   \<and> last_pos (fst (counter_move e None))
       = (if current_weight e < 995 / 1000 then POINT_new else last_pos e)"
  by (simp add: counter_move_def GetCursorPos_def)

text \<open>
  C9. The pass whose cursor query fails raises nothing and issues no move, but under
  damping it stores the untouched, zero-initialised \<^verbatim>\<open>POINT()\<close> as \<^verbatim>\<open>last_pos\<close>. With the
  cursor at rest at (500, 500), weight 0.5 and clicks still active, one failed query is
  followed on the next pass by a move of (-250, -250); the same two passes without the
  failure issue no move.
\<close>

theorem failed_read_spurious_move:
  "loop_from DEFAULT_CONFIG [failed_tick, still_tick] damped_engine clicking_state
     = (Inr (), damped_engine\<lparr>last_pos := \<lparr>pt_x = 250, pt_y = 250\<rparr>\<rparr>, clicking_state,
        [Sleep (1 / 250), Move (- 250) (- 250), Sleep (1 / 250)])
   \<and> loop_from DEFAULT_CONFIG [still_tick, still_tick] damped_engine clicking_state
     = (Inr (), damped_engine, clicking_state, [Sleep (1 / 250), Sleep (1 / 250)])"
proof -
  have a: "loop_from DEFAULT_CONFIG [failed_tick, still_tick]
      (damped_engine\<lparr>last_pos := \<lparr>pt_x = 500, pt_y = 500\<rparr>\<rparr>) clicking_state
     = (Inr (), damped_engine\<lparr>last_pos := \<lparr>pt_x = 250, pt_y = 250\<rparr>\<rparr>, clicking_state,
        [Sleep (1 / 250), Move (- 250) (- 250), Sleep (1 / 250)])"
    by (simp add: tick_fields failed_tick_result still_tick_after_failure del: One_nat_def)
  have b: "loop_from DEFAULT_CONFIG [still_tick, still_tick]
      (damped_engine\<lparr>last_pos := \<lparr>pt_x = 500, pt_y = 500\<rparr>\<rparr>) clicking_state
     = (Inr (), damped_engine\<lparr>last_pos := \<lparr>pt_x = 500, pt_y = 500\<rparr>\<rparr>, clicking_state,
        [Sleep (1 / 250), Sleep (1 / 250)])"
    by (simp add: tick_fields still_tick_result)
  from a b show ?thesis by (simp only: damped_self) 
qed

end
